theory Spec2Isabelle
  imports Main "HOL-Library.Word" "HOL-Library.AList" "HOL-Library.List_Lexorder"
    "HOL-Library.Multiset"
begin

section \<open>The Validator Accumulator: block coordinator of accumulator.go\<close>

text \<open>
  The development embeds \<^verbatim>\<open>ValAcc/accumulator/accumulator.go\<close>: the struct
  \<^verbatim>\<open>Accumulator\<close> and its two methods \<^verbatim>\<open>Init\<close> and \<^verbatim>\<open>Run\<close>.
  The packages \<^verbatim>\<open>types\<close>, \<^verbatim>\<open>node\<close>, \<^verbatim>\<open>merkleDag\<close> and
  \<^verbatim>\<open>database\<close>, and the constructor \<^verbatim>\<open>NewChainAcc\<close>, are used by that
  file but are not part of the sources at hand. What they compute is either taken as a
  parameter (the record \<open>env\<close>) or modelled from the specification; every such
  definition says so.
\<close>

subsection \<open>Package types\<close>

type_synonym byte = "8 word"

text \<open>
  \<^verbatim>\<open>types.Hash\<close> is a 32-byte array. It is modelled as a byte list; the zero value of
  the Go type is the list of 32 zero bytes. Nothing below depends on the length, since
  \<open>bytes_Compare\<close> and map-key equality are defined on slices of any length.
\<close>

type_synonym Hash = "byte list"

definition zero_Hash :: Hash where
  "zero_Hash = replicate 32 0"

text \<open>
  Modelled from the spec: the integer types of the \<^verbatim>\<open>types\<close> package
  (\<^verbatim>\<open>BlockHeight\<close>, \<^verbatim>\<open>Sequence\<close>, \<^verbatim>\<open>TimeStamp\<close>, the version) are not in
  the sources; the spec gives \<open>block_height: u64\<close>, \<open>sequence_num: u64\<close>,
  \<open>timestamp: i64\<close>, \<open>version: u16\<close>.
\<close>

type_synonym BlockHeight = "64 word"
type_synonym Sequence = "64 word"
type_synonym TimeStamp = "64 word"

text \<open>The two store namespaces \<^verbatim>\<open>types.Node\<close> and \<^verbatim>\<open>types.NodeHead\<close>.\<close>

datatype NameSpace = types_Node | types_NodeHead

text \<open>Every panic of the two methods is a value of \<open>error\<close>.\<close>

datatype error =
    NoHeadFound \<comment> \<open>Init, line 51\<close>
  | UnmarshalError \<comment> \<open>Init, line 56\<close>
  | NilPointerDereference \<comment> \<open>\<^verbatim>\<open>a.previous.GetHash()\<close> with \<^verbatim>\<open>a.previous == nil\<close>, line 143\<close>
  | IntegerDivideByZero \<comment> \<open>\<^verbatim>\<open>int64(total)/secs\<close> with \<^verbatim>\<open>secs == 0\<close>, line 129\<close>

subsection \<open>node.Node, node.EntryHash, node.NEList\<close>

text \<open>
  The fields of \<^verbatim>\<open>node.Node\<close> that accumulator.go reads or writes. The zero value
  \<open>new_Node\<close> is what \<^verbatim>\<open>new(node.Node)\<close> and \<^verbatim>\<open>var headNode node.Node\<close> give.
\<close>

record Node =
  Version :: "16 word"
  ChainID :: Hash
  BHeight :: BlockHeight
  SequenceNum :: Sequence
  TimeStamp :: TimeStamp
  Previous :: Hash
  IsNode :: bool
  ListMDRoot :: Hash
  EntryList :: "Hash list"

definition new_Node :: Node where
  "new_Node = \<lparr>Version = 0, ChainID = zero_Hash, BHeight = 0, SequenceNum = 0,
     TimeStamp = 0, Previous = zero_Hash, IsNode = False, ListMDRoot = zero_Hash,
     EntryList = []\<rparr>"

record EntryHash =
  entry_ChainID :: Hash
  entry_EntryHash :: Hash

record NEList =
  ne_ChainID :: Hash
  ne_MDRoot :: Hash

subsection \<open>Parameters: hashing and the node codec\<close>

text \<open>
  The hash of two concatenated digests, the digest of a node, the node codec and the
  constant \<^verbatim>\<open>types.Version\<close> are not in the sources. They are parameters of every
  definition that needs them; no theorem assumes anything about them.
\<close>

record env =
  H_concat :: "Hash \<Rightarrow> Hash \<Rightarrow> Hash"
  Node_GetHash :: "Node \<Rightarrow> Hash"
  Node_Marshal :: "Node \<Rightarrow> byte list"
  Node_Unmarshal :: "byte list \<Rightarrow> Node option"
  types_Version :: "16 word"

subsection \<open>merkleDag.MD\<close>

text \<open>
  Modelled from the spec: \<^verbatim>\<open>merkleDag.MD\<close> is not in the sources. The spec: an ordered
  leaf list of all hashes ever added, and a frontier with at most one pending hash per
  tree level. Adding a leaf \<open>h\<close> sets \<open>cur = h\<close>, \<open>k = 0\<close>; while \<open>F[k]\<close> is occupied,
  \<open>cur = H(F[k] || cur)\<close>, \<open>F[k] = None\<close>, \<open>k += 1\<close>; then \<open>F[k] = cur\<close>. The root is the
  fold of the occupied frontier entries from the lowest level up, \<open>acc = H(F[k] || acc)\<close>,
  and the zero digest for the empty tree.
\<close>

record MD =
  HashList :: "Hash list"
  Frontier :: "Hash option list"

text \<open>Modelled from the spec: the empty MD has no leaf and an empty frontier.\<close>

definition new_MD :: MD where
  "new_MD = \<lparr>HashList = [], Frontier = []\<rparr>"

text \<open>
  Modelled from the spec: the frontier after a leaf is added; the list holds \<open>F[0]\<close>,
  \<open>F[1]\<close>, ... from the lowest level up.
\<close>

fun add_frontier :: "(Hash \<Rightarrow> Hash \<Rightarrow> Hash) \<Rightarrow> Hash \<Rightarrow> Hash option list \<Rightarrow> Hash option list" where
  "add_frontier H cur [] = [Some cur]"
| "add_frontier H cur (None # fs) = Some cur # fs"
| "add_frontier H cur (Some f # fs) = None # add_frontier H (H f cur) fs"

text \<open>
  Modelled from the spec: \<^verbatim>\<open>AddToChain\<close> appends the leaf to the leaf list and adds it
  to the frontier.
\<close>

definition AddToChain :: "(Hash \<Rightarrow> Hash \<Rightarrow> Hash) \<Rightarrow> MD \<Rightarrow> Hash \<Rightarrow> MD" where
  "AddToChain H md h =
     md\<lparr>HashList := HashList md @ [h], Frontier := add_frontier H h (Frontier md)\<rparr>"

text \<open>
  Modelled from the spec: the fold of the occupied frontier entries, from the lowest
  level up; \<open>None\<close> while no occupied entry has been met.
\<close>

fun fold_frontier :: "(Hash \<Rightarrow> Hash \<Rightarrow> Hash) \<Rightarrow> Hash option \<Rightarrow> Hash option list \<Rightarrow> Hash option" where
  "fold_frontier H acc [] = acc"
| "fold_frontier H acc (None # fs) = fold_frontier H acc fs"
| "fold_frontier H None (Some f # fs) = fold_frontier H (Some f) fs"
| "fold_frontier H (Some acc) (Some f # fs) = fold_frontier H (Some (H f acc)) fs"

text \<open>
  Modelled from the spec: \<^verbatim>\<open>GetMDRoot\<close> is that fold, and the zero digest for the empty
  tree; it does not change the MD.
\<close>

definition GetMDRoot :: "(Hash \<Rightarrow> Hash \<Rightarrow> Hash) \<Rightarrow> MD \<Rightarrow> Hash" where
  "GetMDRoot H md =
     (case fold_frontier H None (Frontier md) of None \<Rightarrow> zero_Hash | Some r \<Rightarrow> r)"

text \<open>An MD fed a list of leaves in order, as the loops of \<^verbatim>\<open>Run\<close> do.\<close>

definition MD_of :: "(Hash \<Rightarrow> Hash \<Rightarrow> Hash) \<Rightarrow> Hash list \<Rightarrow> MD" where
  "MD_of H hs = foldl (AddToChain H) new_MD hs"

subsection \<open>database.DB and Node.Put\<close>

text \<open>
  Modelled from the spec: \<^verbatim>\<open>database.DB\<close> is not in the sources. The spec gives a
  byte-addressable store \<open>Put(ns, key, value)\<close>, \<open>Get(ns, key) -> Option\<close>, where a later
  write to a key replaces the earlier one and absence is not an error. The store is the
  list of its writes, newest first, so that what has been written stays visible.
\<close>

type_synonym DB = "((NameSpace \<times> byte list) \<times> byte list) list"

text \<open>Modelled from the spec: \<open>Put(ns, key, value)\<close>.\<close>

definition DB_Put :: "DB \<Rightarrow> NameSpace \<Rightarrow> byte list \<Rightarrow> byte list \<Rightarrow> DB" where
  "DB_Put db ns k v = ((ns, k), v) # db"

text \<open>
  Modelled from the spec: \<open>Get(ns, key)\<close>, the newest write to the key, \<open>None\<close> for a key
  never written (\<^verbatim>\<open>nil\<close> in the source).
\<close>

definition DB_Get :: "DB \<Rightarrow> NameSpace \<Rightarrow> byte list \<Rightarrow> byte list option" where
  "DB_Get db ns k = map_of db (ns, k)"

text \<open>
  Modelled from the spec: \<^verbatim>\<open>Node.Put\<close> is not in the sources. The spec: a node is
  persisted in the namespace \<open>NODE\<close> under the key \<open>GetHash(node)\<close> with its serialization
  as the value. Whether the method also writes \<open>NODE_HEAD\<close> is not visible from
  accumulator.go; the theorems below speak of the writes to \<open>NODE\<close> only.
\<close>

definition Node_Put :: "env \<Rightarrow> Node \<Rightarrow> DB \<Rightarrow> DB" where
  "Node_Put env n db = DB_Put db types_Node (Node_GetHash env n) (Node_Marshal env n)"

text \<open>
  Modelled from the spec: \<^verbatim>\<open>Node.GetMDRoot\<close> is not in the sources. The spec: the value
  published on the md feed is the root of the directory MD, which line 148 stores in
  \<^verbatim>\<open>ListMDRoot\<close>.
\<close>

definition Node_GetMDRoot :: "Node \<Rightarrow> Hash" where
  "Node_GetMDRoot n = ListMDRoot n"

subsection \<open>ChainAcc\<close>

text \<open>
  Modelled from the spec: \<^verbatim>\<open>ChainAcc\<close> and \<^verbatim>\<open>NewChainAcc\<close> are not in the sources.
  \<^verbatim>\<open>Run\<close> uses the fields \<^verbatim>\<open>MD\<close> and \<^verbatim>\<open>Node\<close>. The spec: a chain accumulator holds
  one MD plus a partially populated leaf-list node template (\<open>chain_id\<close>,
  \<open>block_height\<close>), and is created seeded with \<open>(chain_id, block_height)\<close>.
\<close>

record ChainAcc =
  MD :: MD
  Node :: Node

text \<open>
  Modelled from the spec: \<^verbatim>\<open>NewChainAcc\<close> gives an empty MD and a node template that
  holds the entry's chain id and the block height.
\<close>

definition NewChainAcc :: "DB \<Rightarrow> EntryHash \<Rightarrow> BlockHeight \<Rightarrow> ChainAcc" where
  "NewChainAcc db entry height =
     \<lparr>MD = new_MD, Node = new_Node\<lparr>ChainID := entry_ChainID entry, BHeight := height\<rparr>\<rparr>"

subsection \<open>Standard library: bytes.Compare and sort.Slice\<close>

text \<open>
  \<^verbatim>\<open>bytes.Compare\<close> compares two byte slices lexicographically and returns -1, 0 or 1;
  bytes compare as unsigned numbers, which is the order of \<open>8 word\<close>.
\<close>

fun bytes_Compare :: "byte list \<Rightarrow> byte list \<Rightarrow> int" where
  "bytes_Compare [] [] = 0"
| "bytes_Compare [] (y # ys) = - 1"
| "bytes_Compare (x # xs) [] = 1"
| "bytes_Compare (x # xs) (y # ys) =
     (if x < y then - 1 else if y < x then 1 else bytes_Compare xs ys)"

text \<open>
  \<^verbatim>\<open>sort.Slice\<close> sorts by the \<open>less\<close> function it is given and does not promise an
  order among elements neither of which is less than the other. It is modelled by an
  insertion sort. Where the keys are pairwise distinct, as the chain ids of one block
  are, every sort gives the same list (lemma \<open>sort_Slice_unique\<close> below).
\<close>

fun sort_insert :: "('a \<Rightarrow> 'a \<Rightarrow> bool) \<Rightarrow> 'a \<Rightarrow> 'a list \<Rightarrow> 'a list" where
  "sort_insert lt x [] = [x]"
| "sort_insert lt x (y # ys) =
     (if lt y x then y # sort_insert lt x ys else x # y # ys)"

definition sort_Slice :: "('a \<Rightarrow> 'a \<Rightarrow> bool) \<Rightarrow> 'a list \<Rightarrow> 'a list" where
  "sort_Slice lt xs = foldr (sort_insert lt) xs []"

text \<open>The \<open>less\<close> function of line 114.\<close>

definition chain_less :: "NEList \<Rightarrow> NEList \<Rightarrow> bool" where
  "chain_less x y = (bytes_Compare (ne_ChainID x) (ne_ChainID y) < 0)"

subsection \<open>The Accumulator\<close>

text \<open>
  The struct of lines 25 to 34. The map \<^verbatim>\<open>chains\<close> is an association list with
  distinct keys, a new key added at the end; its values are pointers in the source, so
  an update through the pointer is an update of the entry. \<^verbatim>\<open>mdFeed\<close> holds the values
  sent so far, oldest first (the reader is taken to drain the channel). The two input
  channels are not state: what \<^verbatim>\<open>select\<close> receives from them is the input of the run.
\<close>

record Accumulator =
  DB :: DB
  chainID :: Hash
  height :: BlockHeight
  chains :: "(Hash \<times> ChainAcc) list"
  mdFeed :: "Hash list"
  previous :: "Node option"

text \<open>The zero value of the struct, the receiver \<^verbatim>\<open>Init\<close> is called on first.\<close>

definition new_Accumulator :: Accumulator where
  "new_Accumulator = \<lparr>DB = [], chainID = [], height = 0, chains = [], mdFeed = [],
     previous = None\<rparr>"

text \<open>\<^verbatim>\<open>Init\<close>, lines 40 to 69. The three channels it makes are empty.\<close>

definition Init :: "env \<Rightarrow> Accumulator \<Rightarrow> DB \<Rightarrow> Hash \<Rightarrow> error + Accumulator" where
  "Init env a db cid =
     (let a1 = a\<lparr>DB := db, chainID := cid\<rparr> in
      case DB_Get db types_NodeHead cid of
        None \<Rightarrow> Inr (a1\<lparr>chains := [], mdFeed := []\<rparr>)
      | Some headHash \<Rightarrow>
          (case DB_Get db types_Node headHash of
             None \<Rightarrow> Inl NoHeadFound
           | Some head \<Rightarrow>
               (case Node_Unmarshal env head of
                  None \<Rightarrow> Inl UnmarshalError
                | Some headNode \<Rightarrow>
                    Inr (a1\<lparr>previous := Some headNode, height := BHeight headNode + 1,
                            chains := [], mdFeed := []\<rparr>))))"

subsection \<open>Run: building a block\<close>

text \<open>
  The state of \<^verbatim>\<open>Run\<close>: the receiver, the locals \<^verbatim>\<open>total\<close> and \<^verbatim>\<open>start\<close>, and the
  number of calls of \<^verbatim>\<open>time.Now()\<close> made so far. The wall clock is an input: \<open>clock n\<close>
  is what the \<open>n\<close>-th call of \<^verbatim>\<open>time.Now()\<close> returns, in nanoseconds since the epoch.
\<close>

record RunState =
  acc :: Accumulator
  total :: int
  start :: int
  now_calls :: nat

definition Run_start :: "(nat \<Rightarrow> int) \<Rightarrow> Accumulator \<Rightarrow> RunState" where
  "Run_start clock a = \<lparr>acc = a, total = 0, start = clock 0, now_calls = 1\<rparr>"

definition time_Unix :: "int \<Rightarrow> int" where
  "time_Unix ns = ns div 1000000000"

text \<open>
  What one pass of the \<^verbatim>\<open>select\<close> of line 82 does: a value received on
  \<^verbatim>\<open>a.control\<close>, a receive on \<^verbatim>\<open>a.control\<close> after it was closed, a value received on
  \<^verbatim>\<open>a.entryFeed\<close>, or the default case.
\<close>

datatype select = RecvControl bool | ClosedControl | RecvEntry EntryHash | Default

text \<open>Lines 88 to 93: the entry goes to the chain of its chain id, made on first sight.\<close>

definition recv_entry :: "env \<Rightarrow> Accumulator \<Rightarrow> EntryHash \<Rightarrow> Accumulator" where
  "recv_entry env a entry =
     (let chain = (case map_of (chains a) (entry_ChainID entry) of
                     None \<Rightarrow> NewChainAcc (DB a) entry (height a)
                   | Some c \<Rightarrow> c);
          chain' = chain\<lparr>MD := AddToChain (H_concat env) (MD chain) (entry_EntryHash entry)\<rparr>
      in a\<lparr>chains := AList.update (entry_ChainID entry) chain' (chains a)\<rparr>)"

text \<open>
  One pass of the inner loop \<^verbatim>\<open>block:\<close>, lines 78 to 97. The second component says
  whether \<^verbatim>\<open>break block\<close> was taken. A receive on a closed channel yields the zero value,
  here \<^verbatim>\<open>false\<close>, so the test of line 84 fails.
\<close>

fun select_case :: "env \<Rightarrow> RunState \<Rightarrow> select \<Rightarrow> RunState \<times> bool" where
  "select_case env s (RecvControl ctl) = (s, ctl)"
| "select_case env s ClosedControl = (s, False)"
| "select_case env s (RecvEntry entry) = (s\<lparr>acc := recv_entry env (acc s) entry\<rparr>, False)"
| "select_case env s Default = (s, False)"

subsection \<open>Run: the end of a block\<close>

text \<open>
  Lines 99 to 111: every chain's node is completed and put; its chain id and root are
  appended to \<^verbatim>\<open>chainEntries\<close>. The chains are visited in the order of the list it
  is given. Go leaves the order of a range over a map open; the sorted \<^verbatim>\<open>chainEntries\<close>
  do not depend on it (lemma \<open>range_order_irrelevant\<close> below), and the nodes put are the
  same in any order.
\<close>

definition leaf_node :: "env \<Rightarrow> ChainAcc \<Rightarrow> Node" where
  "leaf_node env v =
     (Node v)\<lparr>ListMDRoot := GetMDRoot (H_concat env) (MD v), EntryList := HashList (MD v),
       IsNode := False\<rparr>"

fun flush_chains :: "env \<Rightarrow> ChainAcc list \<Rightarrow> DB \<Rightarrow> NEList list \<Rightarrow> DB \<times> NEList list" where
  "flush_chains env [] db chainEntries = (db, chainEntries)"
| "flush_chains env (v # vs) db chainEntries =
     (let n = leaf_node env v;
          db' = Node_Put env n db;
          ne = \<lparr>ne_ChainID = ChainID n, ne_MDRoot = ListMDRoot n\<rparr>
      in flush_chains env vs db' (chainEntries @ [ne]))"

text \<open>Lines 113 to 115: \<^verbatim>\<open>chainEntries\<close> after the sort.\<close>

definition sorted_chainEntries :: "env \<Rightarrow> Accumulator \<Rightarrow> NEList list" where
  "sorted_chainEntries env a =
     sort_Slice chain_less (snd (flush_chains env (map snd (chains a)) (DB a) []))"

text \<open>Lines 132 to 135: the MD over the roots, in the order of the sorted list.\<close>

definition MDAcc_of :: "env \<Rightarrow> NEList list \<Rightarrow> MD" where
  "MDAcc_of env chainEntries = MD_of (H_concat env) (map ne_MDRoot chainEntries)"

text \<open>
  Lines 138 to 148, statement by statement. The test of line 142 reads the field of the
  node allocated at line 138, before line 145 assigns it.
\<close>

definition directoryBlock_of :: "env \<Rightarrow> Accumulator \<Rightarrow> MD \<Rightarrow> int \<Rightarrow> error + Node" where
  "directoryBlock_of env a MDAcc now =
     (let d0 = new_Node;
          d1 = d0\<lparr>Version := types_Version env\<rparr>;
          d2 = d1\<lparr>ChainID := chainID a\<rparr>;
          d3 = d2\<lparr>BHeight := height a\<rparr>
      in case (if 0 < SequenceNum d3
               then (case previous a of
                       None \<Rightarrow> Inl NilPointerDereference
                     | Some p \<Rightarrow> Inr (d3\<lparr>Previous := Node_GetHash env p\<rparr>))
               else Inr d3) of
           Inl e \<Rightarrow> Inl e
         | Inr d4 \<Rightarrow>
             Inr (d4\<lparr>SequenceNum := ucast (height a), TimeStamp := word_of_int now,
                     IsNode := True, ListMDRoot := GetMDRoot (H_concat env) MDAcc\<rparr>))"

text \<open>
  The directory node of the block that ends in state \<open>s\<close>: lines 132 to 148 on the
  sorted \<^verbatim>\<open>chainEntries\<close>. \<^verbatim>\<open>time.Now()\<close> is called at lines 124, 126 and 146; the
  time stamp is the third reading.
\<close>

definition flush_directoryBlock :: "env \<Rightarrow> (nat \<Rightarrow> int) \<Rightarrow> RunState \<Rightarrow> error + Node" where
  "flush_directoryBlock env clock s =
     directoryBlock_of env (acc s) (MDAcc_of env (sorted_chainEntries env (acc s)))
       (clock (now_calls s + 2))"

text \<open>
  Lines 99 to 156. The statistics of lines 117 to 129 are printed only, but the
  division of line 129 panics when the block ends within the second in which
  \<^verbatim>\<open>Run\<close> started. Neither \<^verbatim>\<open>a.height\<close> nor \<^verbatim>\<open>a.previous\<close> is assigned anywhere
  in \<^verbatim>\<open>Run\<close>.
\<close>

definition flush :: "env \<Rightarrow> (nat \<Rightarrow> int) \<Rightarrow> RunState \<Rightarrow> error + RunState" where
  "flush env clock s =
     (let a = acc s;
          db' = fst (flush_chains env (map snd (chains a)) (DB a) []);
          sum = sum_list (map (\<lambda>v. int (length (HashList (MD v)))) (map snd (chains a)));
          total' = total s + sum;
          secs = time_Unix (clock (now_calls s)) - time_Unix (start s)
      in if secs = 0 then Inl IntegerDivideByZero
         else (case flush_directoryBlock env clock s of
                 Inl e \<Rightarrow> Inl e
               | Inr directoryBlock \<Rightarrow>
                   Inr (s\<lparr>acc := a\<lparr>DB := Node_Put env directoryBlock db',
                                   mdFeed := mdFeed a @ [Node_GetMDRoot directoryBlock],
                                   chains := []\<rparr>,
                          total := total', now_calls := now_calls s + 3\<rparr>)))"

subsection \<open>Run: the loop\<close>

text \<open>
  One pass of the \<^verbatim>\<open>select\<close>, followed by the end of the block when the pass broke out
  of the inner loop; then the outer loop of line 75 starts the next block.
\<close>

definition Run_pass :: "env \<Rightarrow> (nat \<Rightarrow> int) \<Rightarrow> RunState \<Rightarrow> select \<Rightarrow> error + RunState" where
  "Run_pass env clock s ev =
     (case select_case env s ev of
        (s', False) \<Rightarrow> Inr s'
      | (s', True) \<Rightarrow> flush env clock s')"

text \<open>The state after a finite sequence of passes, or the panic that ended the run.\<close>

fun Run_steps :: "env \<Rightarrow> (nat \<Rightarrow> int) \<Rightarrow> RunState \<Rightarrow> select list \<Rightarrow> error + RunState" where
  "Run_steps env clock s [] = Inr s"
| "Run_steps env clock s (ev # evs) =
     (case Run_pass env clock s ev of
        Inl e \<Rightarrow> Inl e
      | Inr s' \<Rightarrow> Run_steps env clock s' evs)"

text \<open>
  \<^verbatim>\<open>Run\<close> itself, with fuel: \<open>sched i\<close> is what the \<open>i\<close>-th pass of the \<^verbatim>\<open>select\<close>
  receives. The result is \<open>Some e\<close> when the run ends with the panic \<open>e\<close>, and \<open>None\<close>
  when it is still looping after \<open>fuel\<close> passes. The source has no \<^verbatim>\<open>return\<close> and no
  \<^verbatim>\<open>break\<close> out of the outer loop, so there is no other way for it to end.
\<close>

fun Run :: "nat \<Rightarrow> env \<Rightarrow> (nat \<Rightarrow> int) \<Rightarrow> (nat \<Rightarrow> select) \<Rightarrow> nat \<Rightarrow> RunState \<Rightarrow> error option" where
  "Run 0 env clock sched i s = None"
| "Run (Suc fuel) env clock sched i s =
     (case Run_pass env clock s (sched i) of
        Inl e \<Rightarrow> Some e
      | Inr s' \<Rightarrow> Run fuel env clock sched (Suc i) s')"

text \<open>The entries received since the last end of block, in the order of arrival.\<close>

fun block_entries :: "select list \<Rightarrow> EntryHash list \<Rightarrow> EntryHash list" where
  "block_entries [] es = es"
| "block_entries (RecvControl ctl # evs) es = block_entries evs (if ctl then [] else es)"
| "block_entries (ClosedControl # evs) es = block_entries evs es"
| "block_entries (RecvEntry entry # evs) es = block_entries evs (es @ [entry])"
| "block_entries (Default # evs) es = block_entries evs es"

text \<open>The leaves of one chain among a list of entries.\<close>

definition leaves_of :: "Hash \<Rightarrow> EntryHash list \<Rightarrow> Hash list" where
  "leaves_of c es = map entry_EntryHash (filter (\<lambda>e. entry_ChainID e = c) es)"

text \<open>
  What the chain accumulator of chain \<open>c\<close> is expected to hold after the entries \<open>es\<close> of
  a block at height \<open>h\<close>: the node template of the chain, and an MD fed the leaves of
  the chain in the order of arrival.
\<close>

definition chain_of :: "env \<Rightarrow> BlockHeight \<Rightarrow> Hash \<Rightarrow> EntryHash list \<Rightarrow> ChainAcc" where
  "chain_of env h c es =
     \<lparr>MD = MD_of (H_concat env) (leaves_of c es),
      Node = new_Node\<lparr>ChainID := c, BHeight := h\<rparr>\<rparr>"

text \<open>
  The root that chain \<open>c\<close> contributes to the directory of a block with the entries
  \<open>es\<close>: the MD root over the leaves of the chain, in the order of arrival. The chain id
  selects the leaves and is not hashed.
\<close>

definition chain_root :: "env \<Rightarrow> Hash \<Rightarrow> EntryHash list \<Rightarrow> Hash" where
  "chain_root env c es = GetMDRoot (H_concat env) (MD_of (H_concat env) (leaves_of c es))"

subsection \<open>A concrete instance\<close>

text \<open>
  An instance of the parameters, a clock and two stores, on which the definitions can
  be evaluated. The toy codec keeps the block height only; the toy hash of two digests
  is their concatenation.
\<close>

definition example_env :: env where
  "example_env =
     \<lparr>H_concat = (\<lambda>x y. x @ y),
      Node_GetHash = (\<lambda>n. ucast (BHeight n) # 1 # ListMDRoot n),
      Node_Marshal = (\<lambda>n. [ucast (BHeight n)]),
      Node_Unmarshal = (\<lambda>bs. case bs of
                                [b] \<Rightarrow> Some (new_Node\<lparr>BHeight := ucast b, SequenceNum := ucast b,
                                                  IsNode := True\<rparr>)
                              | _ \<Rightarrow> None),
      types_Version = 1\<rparr>"

text \<open>The clock advances by five seconds with every call of \<^verbatim>\<open>time.Now()\<close>.\<close>

definition example_clock :: "nat \<Rightarrow> int" where
  "example_clock n = 5000000000 * int n"

definition example_id :: Hash where
  "example_id = [172]"

text \<open>A store with a head for \<open>example_id\<close>: a directory node of block height 0.\<close>

definition example_head_db :: DB where
  "example_head_db = [((types_NodeHead, [172]), [9]), ((types_Node, [9]), [0])]"

definition example_entry :: "nat \<Rightarrow> nat \<Rightarrow> EntryHash" where
  "example_entry c h = \<lparr>entry_ChainID = [of_nat c], entry_EntryHash = [of_nat h]\<rparr>"

text \<open>
  The accumulator that \<^verbatim>\<open>Init\<close> leaves on the empty store, the state in which
  \<^verbatim>\<open>Run\<close> starts from it, and the entries of one block: two for chain 2 with one for
  chain 1 between them.
\<close>

definition example_fresh :: Accumulator where
  "example_fresh = new_Accumulator\<lparr>chainID := example_id\<rparr>"

definition example_start :: RunState where
  "example_start = Run_start example_clock example_fresh"

definition example_block :: "select list" where
  "example_block =
     [RecvEntry (example_entry 2 5), RecvEntry (example_entry 1 6), RecvEntry (example_entry 2 7)]"

text \<open>
  Two blocks with the same roots under different chain ids. In both, the chain with the
  larger id receives its entry first.
\<close>

definition example_block_a :: "select list" where
  "example_block_a = [RecvEntry (example_entry 2 5), RecvEntry (example_entry 1 6)]"

definition example_block_b :: "select list" where
  "example_block_b = [RecvEntry (example_entry 4 5), RecvEntry (example_entry 3 6)]"

text \<open>The control channel closed from the start: every pass receives from it.\<close>

definition example_closed :: "nat \<Rightarrow> select" where
  "example_closed i = ClosedControl"

section \<open>Properties\<close>

subsection \<open>Auxiliary facts\<close>

lemma zero_Hash_length: "length zero_Hash = 32"
  by (simp add: zero_Hash_def)


lemma directoryBlock_of_total:
  "directoryBlock_of env a m now =
     Inr (new_Node\<lparr>Version := types_Version env, ChainID := chainID a, BHeight := height a,
            SequenceNum := ucast (height a), TimeStamp := word_of_int now, IsNode := True,
            ListMDRoot := GetMDRoot (H_concat env) m\<rparr>)"
  by (simp add: directoryBlock_of_def new_Node_def)

lemma flush_directoryBlock_total:
  "flush_directoryBlock env clock s =
     Inr (new_Node\<lparr>Version := types_Version env, ChainID := chainID (acc s),
            BHeight := height (acc s), SequenceNum := ucast (height (acc s)),
            TimeStamp := word_of_int (clock (now_calls s + 2)), IsNode := True,
            ListMDRoot := GetMDRoot (H_concat env)
               (MDAcc_of env (sorted_chainEntries env (acc s)))\<rparr>)"
  by (simp add: flush_directoryBlock_def directoryBlock_of_total)

lemma flush_cases:
  "flush env clock s = Inl IntegerDivideByZero \<or> (\<exists>s'. flush env clock s = Inr s')"
  by (simp add: flush_def Let_def flush_directoryBlock_total)

lemma flush_not_nil: "flush env clock s \<noteq> Inl NilPointerDereference"
  using flush_cases [of env clock s] by auto

lemma flush_Inr_fields:
  assumes "flush env clock s = Inr s'"
  shows "height (acc s') = height (acc s)" "previous (acc s') = previous (acc s)"
    "chainID (acc s') = chainID (acc s)" "chains (acc s') = []" "start s' = start s"
  using assms by (auto simp: flush_def Let_def flush_directoryBlock_total split: if_splits)

lemma recv_entry_fields:
  "height (recv_entry env a e) = height a" "previous (recv_entry env a e) = previous a"
  "chainID (recv_entry env a e) = chainID a" "DB (recv_entry env a e) = DB a"
  "mdFeed (recv_entry env a e) = mdFeed a"
  by (simp_all add: recv_entry_def Let_def)

lemma Run_pass_not_nil: "Run_pass env clock s ev \<noteq> Inl NilPointerDereference"
  by (cases ev) (auto simp: Run_pass_def flush_not_nil split: bool.splits)

lemma Run_pass_fields:
  assumes "Run_pass env clock s ev = Inr s'"
  shows "height (acc s') = height (acc s)" "previous (acc s') = previous (acc s)"
    "chainID (acc s') = chainID (acc s)" "start s' = start s"
  using assms
  by (cases ev; auto simp: Run_pass_def recv_entry_fields flush_Inr_fields split: bool.splits)+

lemma Run_steps_not_nil: "Run_steps env clock s evs \<noteq> Inl NilPointerDereference"
  by (induction evs arbitrary: s) (auto simp: Run_pass_not_nil split: sum.splits)

lemma Run_not_nil: "Run fuel env clock sched i s \<noteq> Some NilPointerDereference"
  by (induction fuel arbitrary: i s) (auto simp: Run_pass_not_nil split: sum.splits)

lemma Run_steps_fields:
  assumes "Run_steps env clock s evs = Inr s'"
  shows "height (acc s') = height (acc s) \<and> previous (acc s') = previous (acc s)
     \<and> chainID (acc s') = chainID (acc s) \<and> start s' = start s"
  using assms
proof (induction evs arbitrary: s)
  case Nil
  then show ?case by simp
next
  case (Cons ev evs)
  then obtain s1 where p: "Run_pass env clock s ev = Inr s1" and r: "Run_steps env clock s1 evs = Inr s'"
    by (auto split: sum.splits)
  from Cons.IH [OF r] Run_pass_fields [OF p] show ?case by simp
qed

lemma Run_steps_append:
  "Run_steps env clock s (evs1 @ evs2) =
     (case Run_steps env clock s evs1 of Inl e \<Rightarrow> Inl e | Inr s' \<Rightarrow> Run_steps env clock s' evs2)"
  by (induction evs1 arbitrary: s) (auto split: sum.splits)

lemma Run_None_no_end:
  "(\<forall>j<fuel. sched (i + j) \<noteq> RecvControl True) \<Longrightarrow> Run fuel env clock sched i s = None"
proof (induction fuel arbitrary: i s)
  case 0
  then show ?case by simp
next
  case (Suc fuel)
  have "sched i \<noteq> RecvControl True" using Suc.prems [rule_format, of 0] by simp
  then obtain s' where p: "Run_pass env clock s (sched i) = Inr s'"
    by (cases "sched i") (auto simp: Run_pass_def)
  have "\<forall>j<fuel. sched (Suc i + j) \<noteq> RecvControl True"
    using Suc.prems by (metis Suc_less_eq add_Suc_shift)
  from Suc.IH [OF this] p show ?case by simp
qed


lemma bytes_Compare_less_iff: "bytes_Compare a b < 0 \<longleftrightarrow> a < b"
  by (induction a b rule: bytes_Compare.induct) auto

lemma chain_less_conv: "chain_less = (\<lambda>x y. ne_ChainID x < ne_ChainID y)"
  by (intro ext) (simp add: chain_less_def bytes_Compare_less_iff)

lemma sort_insert_chain_less: "sort_insert chain_less x ys = insort_key ne_ChainID x ys"
  by (induction ys) (auto simp: chain_less_def bytes_Compare_less_iff)

lemma sort_Slice_chain_less: "sort_Slice chain_less xs = sort_key ne_ChainID xs"
  by (induction xs) (auto simp: sort_Slice_def sort_key_def sort_insert_chain_less)

lemma sort_Slice_unique:
  assumes "mset ys = mset xs" "distinct (map ne_ChainID xs)" "sorted_wrt chain_less ys"
  shows "sort_Slice chain_less xs = ys"
proof -
  have "inj_on ne_ChainID (set xs)" using assms(2) by (simp add: distinct_map)
  moreover have "sorted (map ne_ChainID ys)"
  proof -
    have "sorted_wrt (\<lambda>x y. ne_ChainID x < ne_ChainID y) ys"
      using assms(3) by (simp add: chain_less_conv)
    then have "sorted_wrt (<) (map ne_ChainID ys)" by (simp add: sorted_wrt_map)
    then show ?thesis by (simp add: strict_sorted_iff)
  qed
  ultimately show ?thesis
    using assms(1) by (simp add: sort_Slice_chain_less sort_key_inj_key_eq)
qed

lemma flush_chains_snd:
  "snd (flush_chains env vs db ces) =
     ces @ map (\<lambda>v. \<lparr>ne_ChainID = ChainID (Node v), ne_MDRoot = GetMDRoot (H_concat env) (MD v)\<rparr>) vs"
  by (induction vs arbitrary: db ces) (auto simp: leaf_node_def Let_def)

lemma flush_chains_fst:
  "fst (flush_chains env vs db ces) =
     rev (map (\<lambda>v. ((types_Node, Node_GetHash env (leaf_node env v)), Node_Marshal env (leaf_node env v))) vs) @ db"
  by (induction vs arbitrary: db ces) (auto simp: Let_def Node_Put_def DB_Put_def)

lemma sorted_chainEntries_ids:
  "mset (map ne_ChainID (sorted_chainEntries env a)) = mset (map (\<lambda>p. ChainID (Node (snd p))) (chains a))"
proof -
  have "mset (sorted_chainEntries env a) =
     mset (map (\<lambda>v. \<lparr>ne_ChainID = ChainID (Node v), ne_MDRoot = GetMDRoot (H_concat env) (MD v)\<rparr>) (map snd (chains a)))"
    by (simp add: sorted_chainEntries_def sort_Slice_chain_less flush_chains_snd)
  then have "image_mset ne_ChainID (mset (sorted_chainEntries env a)) =
     image_mset ne_ChainID (mset (map (\<lambda>v. \<lparr>ne_ChainID = ChainID (Node v), ne_MDRoot = GetMDRoot (H_concat env) (MD v)\<rparr>) (map snd (chains a))))"
    by simp
  then show ?thesis by (simp add: image_mset.compositionality comp_def)
qed

lemma sorted_chainEntries_sorted:
  "sorted (map ne_ChainID (sorted_chainEntries env a))"
  by (simp add: sorted_chainEntries_def sort_Slice_chain_less)

lemma HashList_MD_of: "HashList (MD_of H hs) = hs"
proof -
  have "HashList (foldl (AddToChain H) m hs) = HashList m @ hs" for m
    by (induction hs arbitrary: m) (auto simp: AddToChain_def)
  then show ?thesis by (simp add: MD_of_def new_MD_def)
qed

lemma MD_of_snoc: "MD_of H (hs @ [h]) = AddToChain H (MD_of H hs) h"
  by (simp add: MD_of_def)

lemma leaves_of_snoc:
  "leaves_of c (es @ [e]) = (if entry_ChainID e = c then leaves_of c es @ [entry_EntryHash e] else leaves_of c es)"
  by (simp add: leaves_of_def)

lemma leaves_of_Nil_iff: "c \<notin> entry_ChainID ` set es \<Longrightarrow> leaves_of c es = []"
  by (auto simp: leaves_of_def filter_empty_conv)


lemma chain_of_snoc_same:
  "entry_ChainID e = c \<Longrightarrow>
   chain_of env h c (es @ [e]) =
     (chain_of env h c es)\<lparr>MD := AddToChain (H_concat env) (MD (chain_of env h c es)) (entry_EntryHash e)\<rparr>"
  by (simp add: chain_of_def leaves_of_snoc MD_of_snoc)

lemma chain_of_snoc_other:
  "entry_ChainID e \<noteq> c \<Longrightarrow> chain_of env h c (es @ [e]) = chain_of env h c es"
  by (simp add: chain_of_def leaves_of_snoc)

lemma chain_of_fresh:
  "entry_ChainID e \<notin> entry_ChainID ` set es \<Longrightarrow>
   NewChainAcc db e h = chain_of env h (entry_ChainID e) es"
  by (simp add: chain_of_def NewChainAcc_def leaves_of_Nil_iff MD_of_def)

lemma recv_entry_inv:
  assumes d: "distinct (map fst (chains a))"
    and m: "\<And>c. map_of (chains a) c =
        (if c \<in> entry_ChainID ` set es then Some (chain_of env (height a) c es) else None)"
  shows "distinct (map fst (chains (recv_entry env a e)))"
    and "map_of (chains (recv_entry env a e)) c =
        (if c \<in> entry_ChainID ` set (es @ [e])
         then Some (chain_of env (height a) c (es @ [e])) else None)"
proof -
  show "distinct (map fst (chains (recv_entry env a e)))"
    using d by (simp add: recv_entry_def Let_def distinct_update)
  let ?k = "entry_ChainID e"
  show "map_of (chains (recv_entry env a e)) c =
        (if c \<in> entry_ChainID ` set (es @ [e])
         then Some (chain_of env (height a) c (es @ [e])) else None)"
  proof (cases "c = ?k")
    case False
    then show ?thesis
      using m [of c] by (auto simp: recv_entry_def Let_def update_conv' chain_of_snoc_other)
  next
    case True
    show ?thesis
    proof (cases "?k \<in> entry_ChainID ` set es")
      case in_es: True
      then have "map_of (chains a) ?k = Some (chain_of env (height a) ?k es)"
        using m [of ?k] by simp
      then show ?thesis
        using True by (simp add: recv_entry_def Let_def update_conv' chain_of_snoc_same)
    next
      case not_in: False
      then have n: "map_of (chains a) ?k = None" using m [of ?k] by simp
      have "NewChainAcc (DB a) e (height a) = chain_of env (height a) ?k es"
        using not_in by (rule chain_of_fresh)
      then show ?thesis
        using True n by (simp add: recv_entry_def Let_def update_conv' chain_of_snoc_same)
    qed
  qed
qed

lemma Run_pass_inv:
  assumes d: "distinct (map fst (chains (acc s)))"
    and m: "\<And>c. map_of (chains (acc s)) c =
        (if c \<in> entry_ChainID ` set es then Some (chain_of env (height (acc s)) c es) else None)"
    and p: "Run_pass env clock s ev = Inr s'"
  shows "distinct (map fst (chains (acc s')))"
    and "map_of (chains (acc s')) c =
        (if c \<in> entry_ChainID ` set (block_entries [ev] es)
         then Some (chain_of env (height (acc s')) c (block_entries [ev] es)) else None)"
proof -
  have "distinct (map fst (chains (acc s'))) \<and> map_of (chains (acc s')) c =
        (if c \<in> entry_ChainID ` set (block_entries [ev] es)
         then Some (chain_of env (height (acc s')) c (block_entries [ev] es)) else None)"
  proof (cases ev)
    case (RecvControl ctl)
    show ?thesis
    proof (cases ctl)
      case True
      with RecvControl p have "flush env clock s = Inr s'" by (simp add: Run_pass_def)
      then have "chains (acc s') = []" by (rule flush_Inr_fields)
      with RecvControl True show ?thesis by simp
    next
      case False
      with RecvControl p have "s' = s" by (simp add: Run_pass_def)
      with RecvControl False d m [of c] show ?thesis by simp
    qed
  next
    case ClosedControl
    with p have "s' = s" by (simp add: Run_pass_def)
    with ClosedControl d m [of c] show ?thesis by simp
  next
    case (RecvEntry e)
    with p have s': "s' = s\<lparr>acc := recv_entry env (acc s) e\<rparr>" by (auto simp: Run_pass_def)
    from recv_entry_inv(1) [OF d m, of e] recv_entry_inv(2) [OF d m, of e c] RecvEntry s'
    show ?thesis by (simp add: recv_entry_fields)
  next
    case Default
    with p have "s' = s" by (simp add: Run_pass_def)
    with Default d m [of c] show ?thesis by simp
  qed
  then show "distinct (map fst (chains (acc s')))"
    and "map_of (chains (acc s')) c =
        (if c \<in> entry_ChainID ` set (block_entries [ev] es)
         then Some (chain_of env (height (acc s')) c (block_entries [ev] es)) else None)"
    by simp_all
qed

lemma block_entries_Cons: "block_entries (ev # evs) es = block_entries evs (block_entries [ev] es)"
  by (cases ev) simp_all

lemma Run_steps_inv:
  assumes "distinct (map fst (chains (acc s)))"
    and "\<And>c. map_of (chains (acc s)) c =
        (if c \<in> entry_ChainID ` set es then Some (chain_of env (height (acc s)) c es) else None)"
    and "Run_steps env clock s evs = Inr s'"
  shows "distinct (map fst (chains (acc s'))) \<and> (\<forall>c. map_of (chains (acc s')) c =
        (if c \<in> entry_ChainID ` set (block_entries evs es)
         then Some (chain_of env (height (acc s')) c (block_entries evs es)) else None))"
  using assms
proof (induction evs arbitrary: s es)
  case Nil
  then show ?case by simp
next
  case (Cons ev evs)
  from Cons.prems(3) obtain s1 where p: "Run_pass env clock s ev = Inr s1"
    and r: "Run_steps env clock s1 evs = Inr s'"
    by (auto split: sum.splits)
  have d1: "distinct (map fst (chains (acc s1)))"
    using Run_pass_inv(1) [OF Cons.prems(1) Cons.prems(2) p] .
  have m1: "\<And>c. map_of (chains (acc s1)) c =
        (if c \<in> entry_ChainID ` set (block_entries [ev] es)
         then Some (chain_of env (height (acc s1)) c (block_entries [ev] es)) else None)"
    using Run_pass_inv(2) [OF Cons.prems(1) Cons.prems(2) p] .
  from Cons.IH [OF d1 m1 r] show ?case
    by (simp add: block_entries_Cons [of ev evs es])
qed

lemma Run_steps_block:
  assumes "chains (acc s) = []" and "Run_steps env clock s evs = Inr s'"
  shows "distinct (map fst (chains (acc s')))"
    and "map_of (chains (acc s')) c =
        (if c \<in> entry_ChainID ` set (block_entries evs [])
         then Some (chain_of env (height (acc s)) c (block_entries evs [])) else None)"
proof -
  have "\<And>c. map_of (chains (acc s)) c =
        (if c \<in> entry_ChainID ` set [] then Some (chain_of env (height (acc s)) c []) else None)"
    using assms(1) by simp
  from Run_steps_inv [OF _ this assms(2)] assms(1) Run_steps_fields [OF assms(2)]
  show "distinct (map fst (chains (acc s')))"
    and "map_of (chains (acc s')) c =
        (if c \<in> entry_ChainID ` set (block_entries evs [])
         then Some (chain_of env (height (acc s)) c (block_entries evs [])) else None)"
    by simp_all
qed


lemma chains_ids_eq_keys:
  assumes d: "distinct (map fst (chains a))"
    and m: "\<And>c. map_of (chains a) c =
        (if c \<in> ids then Some (chain_of env h c es) else None)"
  shows "map (\<lambda>p. ChainID (Node (snd p))) (chains a) = map fst (chains a)"
    and "set (map fst (chains a)) = ids"
proof -
  show "map (\<lambda>p. ChainID (Node (snd p))) (chains a) = map fst (chains a)"
  proof (rule map_cong [OF refl])
    fix p assume "p \<in> set (chains a)"
    then have "map_of (chains a) (fst p) = Some (snd p)"
      using d by simp
    with m [of "fst p"] have "snd p = chain_of env h (fst p) es"
      by (simp split: if_splits)
    then show "ChainID (Node (snd p)) = fst p"
      by (simp add: chain_of_def)
  qed
  have "dom (map_of (chains a)) = ids"
    using m by (auto simp: dom_def split: if_splits)
  then show "set (map fst (chains a)) = ids"
    by (simp add: dom_map_of_conv_image_fst)
qed

lemma flush_Inr_DB:
  assumes "flush env clock s = Inr s'"
  shows "set (fst (flush_chains env (map snd (chains (acc s))) (DB (acc s)) [])) \<subseteq> set (DB (acc s'))"
  using assms
  by (auto simp: flush_def Let_def flush_directoryBlock_total Node_Put_def DB_Put_def split: if_splits)

lemma flush_chains_writes:
  "v \<in> set vs \<Longrightarrow>
   ((types_Node, Node_GetHash env (leaf_node env v)), Node_Marshal env (leaf_node env v))
     \<in> set (fst (flush_chains env vs db ces))"
  by (simp add: flush_chains_fst)

lemma flush_Inr_mdFeed:
  assumes "flush env clock s = Inr s'" and "flush_directoryBlock env clock s = Inr d"
  shows "mdFeed (acc s') = mdFeed (acc s) @ [ListMDRoot d]"
  using assms
  by (auto simp: flush_def Let_def Node_GetMDRoot_def split: if_splits)

lemma range_order_irrelevant:
  assumes "distinct (map (\<lambda>v. ChainID (Node v)) vs)" and "mset vs' = mset vs"
  shows "sort_Slice chain_less (snd (flush_chains env vs' db' [])) =
         sort_Slice chain_less (snd (flush_chains env vs db []))"
proof -
  let ?g = "\<lambda>v. \<lparr>ne_ChainID = ChainID (Node v), ne_MDRoot = GetMDRoot (H_concat env) (MD v)\<rparr>"
  have "mset (map (\<lambda>v. ChainID (Node v)) vs') = mset (map (\<lambda>v. ChainID (Node v)) vs)"
    using assms(2) by simp
  then have "distinct (map (\<lambda>v. ChainID (Node v)) vs')"
    using assms(1) mset_eq_imp_distinct_iff by blast
  then have "distinct (map ne_ChainID (map ?g vs'))"
    by (simp add: comp_def)
  then have i: "inj_on ne_ChainID (set (map ?g vs'))"
    by (simp only: distinct_map)
  have m: "mset (map ?g vs') = mset (sort_key ne_ChainID (map ?g vs))"
    using assms(2) by simp
  have s: "sorted (map ne_ChainID (sort_key ne_ChainID (map ?g vs)))"
    by (rule sorted_sort_key)
  have "sort_key ne_ChainID (map ?g vs') = sort_key ne_ChainID (map ?g vs)"
    using m i s by (rule sort_key_inj_key_eq)
  then show ?thesis
    by (simp add: sort_Slice_chain_less flush_chains_snd)
qed

lemma chains_ids_distinct:
  assumes d: "distinct (map fst (chains a))"
    and m: "\<And>c. map_of (chains a) c =
        (if c \<in> ids then Some (chain_of env h c es) else None)"
  shows "distinct (map (\<lambda>v. ChainID (Node v)) (map snd (chains a)))"
proof -
  have "map (\<lambda>v. ChainID (Node v)) (map snd (chains a))
      = map (\<lambda>p. ChainID (Node (snd p))) (chains a)"
    by (simp add: comp_def)
  also have "\<dots> = map fst (chains a)"
    by (rule chains_ids_eq_keys(1) [OF d m])
  finally have "map (\<lambda>v. ChainID (Node v)) (map snd (chains a)) = map fst (chains a)" .
  then show ?thesis using d by (simp only:)
qed

lemma sorted_chainEntries_block:
  assumes e: "chains (acc s0) = []" and r: "Run_steps env clock s0 evs = Inr s"
    and srt: "sorted_wrt (\<lambda>a b. bytes_Compare a b < 0) ids"
    and st: "set ids = entry_ChainID ` set (block_entries evs [])"
  shows "sorted_chainEntries env (acc s) =
     map (\<lambda>c. \<lparr>ne_ChainID = c,
                ne_MDRoot = chain_root env c (block_entries evs [])\<rparr>) ids"
proof -
  let ?es = "block_entries evs []"
  let ?ces = "sorted_chainEntries env (acc s)"
  let ?F = "\<lambda>c. chain_root env c ?es"
  let ?g = "\<lambda>v. \<lparr>ne_ChainID = ChainID (Node v), ne_MDRoot = GetMDRoot (H_concat env) (MD v)\<rparr>"
  have d: "distinct (map fst (chains (acc s)))"
    using Run_steps_block(1) [OF e r] .
  have m: "\<And>c. map_of (chains (acc s)) c =
      (if c \<in> entry_ChainID ` set ?es then Some (chain_of env (height (acc s0)) c ?es) else None)"
    using Run_steps_block(2) [OF e r] .
  have ms: "mset (map ne_ChainID ?ces) = mset (map fst (chains (acc s)))"
    using sorted_chainEntries_ids [of env "acc s"] chains_ids_eq_keys(1) [OF d m] by simp
  have dist: "distinct (map ne_ChainID ?ces)"
    using d mset_eq_imp_distinct_iff [OF ms] by simp
  have "set (map ne_ChainID ?ces) = set (map fst (chains (acc s)))"
    using ms by (rule mset_eq_setD)
  then have "set (map ne_ChainID ?ces) = set ids"
    using chains_ids_eq_keys(2) [OF d m] st by simp
  moreover have "sorted_wrt (<) ids"
    using srt by (simp add: bytes_Compare_less_iff)
  then have "sorted ids" "distinct ids"
    by (simp_all add: strict_sorted_iff)
  ultimately have ids: "map ne_ChainID ?ces = ids"
    using sorted_chainEntries_sorted [of env "acc s"] dist
    by (metis sorted_distinct_set_unique)
  have root: "ne_MDRoot x = ?F (ne_ChainID x)" if "x \<in> set ?ces" for x
  proof -
    from that have "x \<in> set (map ?g (map snd (chains (acc s))))"
      by (simp add: sorted_chainEntries_def sort_Slice_chain_less flush_chains_snd)
    then obtain p where p: "p \<in> set (chains (acc s))" and x: "x = ?g (snd p)"
      by auto
    from p d have "map_of (chains (acc s)) (fst p) = Some (snd p)"
      by simp
    with m [of "fst p"] have "snd p = chain_of env (height (acc s0)) (fst p) ?es"
      by (simp split: if_splits)
    then have "MD (snd p) = MD_of (H_concat env) (leaves_of (fst p) ?es)"
      and "ChainID (Node (snd p)) = fst p"
      by (simp_all add: chain_of_def)
    with x show ?thesis by (simp add: chain_root_def)
  qed
  have "?ces = map (\<lambda>x. \<lparr>ne_ChainID = ne_ChainID x, ne_MDRoot = ?F (ne_ChainID x)\<rparr>) ?ces"
    using root by (simp add: map_idI)
  also have "\<dots> = map (\<lambda>c. \<lparr>ne_ChainID = c, ne_MDRoot = ?F c\<rparr>) (map ne_ChainID ?ces)"
    by (simp add: comp_def)
  finally show ?thesis
    using ids by simp
qed


lemma directory_root_block:
  assumes "chains (acc s0) = []" and "Run_steps env clock s0 evs = Inr s"
    and "sorted_wrt (\<lambda>a b. bytes_Compare a b < 0) ids"
    and "set ids = entry_ChainID ` set (block_entries evs [])"
  shows "\<exists>d. flush_directoryBlock env clock s = Inr d
     \<and> ListMDRoot d = GetMDRoot (H_concat env)
          (MD_of (H_concat env) (map (\<lambda>c. chain_root env c (block_entries evs [])) ids))"
  by (simp add: flush_directoryBlock_total MDAcc_of_def sorted_chainEntries_block [OF assms]
      comp_def)

text \<open>The equations that evaluate a run on the concrete instance.\<close>

lemmas example_simps = Run_start_def Run_pass_def recv_entry_def NewChainAcc_def AddToChain_def
  new_MD_def new_Node_def example_env_def example_clock_def example_entry_def
  new_Accumulator_def example_fresh_def example_start_def example_block_def example_id_def
  example_head_db_def example_closed_def Init_def DB_Get_def
  flush_def flush_directoryBlock_total sorted_chainEntries_def sort_Slice_def chain_less_def
  MDAcc_of_def MD_of_def GetMDRoot_def leaf_node_def Node_Put_def DB_Put_def Node_GetMDRoot_def
  time_Unix_def Let_def zero_Hash_def leaves_of_def chain_of_def chain_root_def
  example_block_a_def example_block_b_def

lemma example_block_run:
  "Run_steps example_env example_clock example_start example_block
       = Inr (projr (Run_steps example_env example_clock example_start example_block))"
  by (simp add: example_simps)

lemma example_block_flush:
  "flush example_env example_clock
       (projr (Run_steps example_env example_clock example_start example_block))
     = Inr (projr (flush example_env example_clock
       (projr (Run_steps example_env example_clock example_start example_block))))"
  by (simp add: example_simps)

subsection \<open>The control channel\<close>

text \<open>
  Claim C8. While a block is being built, receiving \<open>true\<close> on the control channel
  leaves the inner loop with the state as it is, and the end-of-block protocol runs
  next; receiving \<open>false\<close> is ignored: the pass returns the state unchanged, so there is
  no flush and no accumulated entry is lost, and a run with a \<open>false\<close> anywhere in its
  input ends in the same state as the run without it.
\<close>

theorem control_true_ends_block_false_ignored:
  "select_case env s (RecvControl True) = (s, True)
   \<and> Run_pass env clock s (RecvControl True) = flush env clock s
   \<and> select_case env s (RecvControl False) = (s, False)
   \<and> Run_pass env clock s (RecvControl False) = Inr s
   \<and> Run_steps env clock s (evs1 @ RecvControl False # evs2) = Run_steps env clock s (evs1 @ evs2)"
  by (simp add: Run_pass_def Run_steps_append split: sum.splits)

subsection \<open>The order of the directory\<close>

text \<open>
  Claim C4. At every end of block, the list of (chain id, root) pairs from which the
  directory MD is built is strictly ascending in the byte-lexicographic order of the chain
  ids, and the chain ids in it are, each exactly once, those of the entries received since
  the previous end of block. The run starts with an empty chain map, as \<^verbatim>\<open>Init\<close> leaves
  it; \<open>s\<close> is the state in which the next \<open>true\<close> on the control channel is received.
  Go does not fix the order in which line 100 ranges over the map: \<open>vs\<close> is any order of
  visiting the chains, and the sorted list is the same for each.
\<close>

theorem directory_sequence_strictly_ascending:
  assumes "chains (acc s0) = []" and "Run_steps env clock s0 evs = Inr s"
    and "mset vs = mset (map snd (chains (acc s)))"
  shows "sorted_wrt (\<lambda>x y. bytes_Compare (ne_ChainID x) (ne_ChainID y) < 0)
           (sorted_chainEntries env (acc s))
     \<and> distinct (map ne_ChainID (sorted_chainEntries env (acc s)))
     \<and> set (map ne_ChainID (sorted_chainEntries env (acc s)))
         = entry_ChainID ` set (block_entries evs [])
     \<and> sort_Slice chain_less (snd (flush_chains env vs db [])) = sorted_chainEntries env (acc s)
     \<and> (\<exists>d. flush_directoryBlock env clock s = Inr d
          \<and> ListMDRoot d = GetMDRoot (H_concat env)
               (MD_of (H_concat env) (map ne_MDRoot (sorted_chainEntries env (acc s)))))"
proof -
  let ?ces = "sorted_chainEntries env (acc s)"
  let ?ids = "entry_ChainID ` set (block_entries evs [])"
  have d: "distinct (map fst (chains (acc s)))"
    using Run_steps_block(1) [OF assms(1,2)] .
  have m: "\<And>c. map_of (chains (acc s)) c =
      (if c \<in> ?ids then Some (chain_of env (height (acc s0)) c (block_entries evs [])) else None)"
    using Run_steps_block(2) [OF assms(1,2)] .
  have ms: "mset (map ne_ChainID ?ces) = mset (map fst (chains (acc s)))"
    using sorted_chainEntries_ids [of env "acc s"] chains_ids_eq_keys(1) [OF d m] by simp
  have dist: "distinct (map ne_ChainID ?ces)"
    using d mset_eq_imp_distinct_iff [OF ms] by simp
  have "set (map ne_ChainID ?ces) = set (map fst (chains (acc s)))"
    using ms by (rule mset_eq_setD)
  then have st: "set (map ne_ChainID ?ces) = ?ids"
    using chains_ids_eq_keys(2) [OF d m] by simp
  have "sorted_wrt (<) (map ne_ChainID ?ces)"
    using sorted_chainEntries_sorted [of env "acc s"] dist by (simp add: strict_sorted_iff)
  then have "sorted_wrt (\<lambda>x y. ne_ChainID x < ne_ChainID y) ?ces"
    by (simp add: sorted_wrt_map)
  then have srt: "sorted_wrt (\<lambda>x y. bytes_Compare (ne_ChainID x) (ne_ChainID y) < 0) ?ces"
    by (simp add: bytes_Compare_less_iff)
  have ord: "sort_Slice chain_less (snd (flush_chains env vs db [])) = ?ces"
    unfolding sorted_chainEntries_def
    using chains_ids_distinct [OF d m] assms(3) by (rule range_order_irrelevant)
  have "\<exists>d. flush_directoryBlock env clock s = Inr d
          \<and> ListMDRoot d = GetMDRoot (H_concat env) (MD_of (H_concat env) (map ne_MDRoot ?ces))"
    by (simp add: flush_directoryBlock_total MDAcc_of_def)
  with srt dist st ord show ?thesis by blast
qed

theorem directory_sequence_strictly_ascending_witness:
  "chains (acc example_start) = []
   \<and> Run_steps example_env example_clock example_start example_block
       = Inr (projr (Run_steps example_env example_clock example_start example_block))
   \<and> mset (rev (map snd (chains (acc
          (projr (Run_steps example_env example_clock example_start example_block))))))
       = mset (map snd (chains (acc
          (projr (Run_steps example_env example_clock example_start example_block)))))
   \<and> sorted_wrt (\<lambda>x y. bytes_Compare (ne_ChainID x) (ne_ChainID y) < 0)
        (sorted_chainEntries example_env
          (acc (projr (Run_steps example_env example_clock example_start example_block))))
   \<and> map ne_ChainID (sorted_chainEntries example_env
          (acc (projr (Run_steps example_env example_clock example_start example_block))))
       = [[1], [2]]
   \<and> map ne_ChainID (sort_Slice chain_less (snd (flush_chains example_env
          (rev (map snd (chains (acc
            (projr (Run_steps example_env example_clock example_start example_block))))))
          [] [])))
       = [[1], [2]]
   \<and> entry_ChainID ` set (block_entries example_block []) = {[1], [2]}"
proof -
  let ?s = "projr (Run_steps example_env example_clock example_start example_block)"
  have h1: "chains (acc example_start) = []"
    by (simp add: example_simps)
  have h3: "mset (rev (map snd (chains (acc ?s)))) = mset (map snd (chains (acc ?s)))"
    by simp
  have c: "map ne_ChainID (sorted_chainEntries example_env (acc ?s)) = [[1], [2]]"
    by (simp add: example_simps)
  have e: "entry_ChainID ` set (block_entries example_block []) = {[1], [2]}"
    by (auto simp add: example_simps)
  show ?thesis
    using h1 example_block_run h3 c e
      directory_sequence_strictly_ascending [OF h1 example_block_run h3, of "[]"]
    by simp
qed

subsection \<open>The leaf-list node of a chain\<close>

text \<open>
  Claim C7. Every entry received during a block is appended to exactly one chain
  accumulator, the one of its chain id, which is made when the first entry of the chain
  arrives: the chain map holds, for the chain ids of the block's entries and no others,
  an accumulator whose MD was fed the entries of that chain in the order of arrival. At the
  end of the block the node put for chain \<open>c\<close> has the leaf list of that MD as its entry
  list, the root of that MD as its \<open>ListMDRoot\<close>, and \<open>IsNode = False\<close>.
\<close>

theorem entries_reach_their_leaf_list_node:
  assumes "chains (acc s0) = []" and "Run_steps env clock s0 evs = Inr s"
    and "flush env clock s = Inr s'"
    and "c \<in> entry_ChainID ` set (block_entries evs [])"
  shows "(\<forall>k. map_of (chains (acc s)) k =
            (if k \<in> entry_ChainID ` set (block_entries evs [])
             then Some (chain_of env (height (acc s0)) k (block_entries evs [])) else None))
     \<and> (\<exists>v n. map_of (chains (acc s)) c = Some v
          \<and> HashList (MD v) = leaves_of c (block_entries evs [])
          \<and> n = leaf_node env v
          \<and> ((types_Node, Node_GetHash env n), Node_Marshal env n) \<in> set (DB (acc s'))
          \<and> ChainID n = c
          \<and> EntryList n = HashList (MD v)
          \<and> ListMDRoot n = GetMDRoot (H_concat env) (MD v)
          \<and> IsNode n = False)"
proof -
  let ?es = "block_entries evs []"
  let ?v = "chain_of env (height (acc s0)) c ?es"
  have m: "\<And>k. map_of (chains (acc s)) k =
      (if k \<in> entry_ChainID ` set ?es then Some (chain_of env (height (acc s0)) k ?es) else None)"
    using Run_steps_block(2) [OF assms(1,2)] .
  then have mc: "map_of (chains (acc s)) c = Some ?v"
    using assms(4) by simp
  then have "(c, ?v) \<in> set (chains (acc s))" by (rule map_of_SomeD)
  then have "?v \<in> set (map snd (chains (acc s)))" by force
  then have "((types_Node, Node_GetHash env (leaf_node env ?v)), Node_Marshal env (leaf_node env ?v))
     \<in> set (fst (flush_chains env (map snd (chains (acc s))) (DB (acc s)) []))"
    by (rule flush_chains_writes)
  then have w: "((types_Node, Node_GetHash env (leaf_node env ?v)), Node_Marshal env (leaf_node env ?v))
     \<in> set (DB (acc s'))"
    using flush_Inr_DB [OF assms(3)] by blast
  have hl: "HashList (MD ?v) = leaves_of c ?es"
    by (simp add: chain_of_def HashList_MD_of)
  have f: "ChainID (leaf_node env ?v) = c" "EntryList (leaf_node env ?v) = HashList (MD ?v)"
    "ListMDRoot (leaf_node env ?v) = GetMDRoot (H_concat env) (MD ?v)"
    "IsNode (leaf_node env ?v) = False"
    by (simp_all add: leaf_node_def chain_of_def)
  from m mc w hl f show ?thesis by blast
qed

theorem entries_reach_their_leaf_list_node_witness:
  "chains (acc example_start) = []
   \<and> Run_steps example_env example_clock example_start example_block
       = Inr (projr (Run_steps example_env example_clock example_start example_block))
   \<and> flush example_env example_clock
       (projr (Run_steps example_env example_clock example_start example_block))
     = Inr (projr (flush example_env example_clock
       (projr (Run_steps example_env example_clock example_start example_block))))
   \<and> [2] \<in> entry_ChainID ` set (block_entries example_block [])
   \<and> (\<exists>v n. map_of (chains (acc (projr (Run_steps example_env example_clock example_start
              example_block)))) [2] = Some v
          \<and> HashList (MD v) = [[5], [7]]
          \<and> n = leaf_node example_env v
          \<and> ((types_Node, Node_GetHash example_env n), Node_Marshal example_env n)
              \<in> set (DB (acc (projr (flush example_env example_clock
                   (projr (Run_steps example_env example_clock example_start example_block))))))
          \<and> ChainID n = [2]
          \<and> EntryList n = [[5], [7]]
          \<and> ListMDRoot n = [5, 7]
          \<and> IsNode n = False)"
proof -
  have h1: "chains (acc example_start) = []"
    by (simp add: example_simps)
  have h4: "[2] \<in> entry_ChainID ` set (block_entries example_block [])"
    by (simp add: example_simps)
  have l: "leaves_of [2] (block_entries example_block []) = [[5], [7]]"
    by (simp add: example_simps)
  have "\<exists>v n. map_of (chains (acc (projr (Run_steps example_env example_clock example_start
              example_block)))) [2] = Some v
          \<and> HashList (MD v) = [[5], [7]]
          \<and> n = leaf_node example_env v
          \<and> ((types_Node, Node_GetHash example_env n), Node_Marshal example_env n)
              \<in> set (DB (acc (projr (flush example_env example_clock
                   (projr (Run_steps example_env example_clock example_start example_block))))))
          \<and> ChainID n = [2]
          \<and> EntryList n = [[5], [7]]
          \<and> ListMDRoot n = [5, 7]
          \<and> IsNode n = False"
    using entries_reach_their_leaf_list_node [OF h1 example_block_run example_block_flush h4]
    unfolding l by (auto simp: example_simps)
  with h1 h4 example_block_run example_block_flush show ?thesis by blast
qed

subsection \<open>What the directory root commits to\<close>

text \<open>
  Claim C5. The root of the directory block is the MD root over the per-chain roots
  alone, taken in the strictly ascending order of the chain ids. A chain's root is the MD
  root over its own leaves; its chain id decides its place in the order and is not
  hashed. So two blocks whose chains, taken in the order of their chain ids, give the
  same sequence of roots get the same \<open>ListMDRoot\<close> in their directory nodes and publish
  the same value on the md feed, whatever the chain ids are. Here \<open>ids1\<close> and \<open>ids2\<close> are
  the chain ids of the two blocks in ascending order.
\<close>

theorem directory_root_commits_to_roots_only:
  assumes "chains (acc t1) = []" and "Run_steps env clock1 t1 evs1 = Inr s1"
    and "flush env clock1 s1 = Inr s1'"
    and "chains (acc t2) = []" and "Run_steps env clock2 t2 evs2 = Inr s2"
    and "flush env clock2 s2 = Inr s2'"
    and "sorted_wrt (\<lambda>a b. bytes_Compare a b < 0) ids1"
    and "set ids1 = entry_ChainID ` set (block_entries evs1 [])"
    and "sorted_wrt (\<lambda>a b. bytes_Compare a b < 0) ids2"
    and "set ids2 = entry_ChainID ` set (block_entries evs2 [])"
    and "map (\<lambda>c. chain_root env c (block_entries evs1 [])) ids1
       = map (\<lambda>c. chain_root env c (block_entries evs2 [])) ids2"
  shows "\<exists>d1 d2. flush_directoryBlock env clock1 s1 = Inr d1
     \<and> flush_directoryBlock env clock2 s2 = Inr d2
     \<and> ListMDRoot d1 = GetMDRoot (H_concat env)
          (MD_of (H_concat env) (map (\<lambda>c. chain_root env c (block_entries evs1 [])) ids1))
     \<and> ListMDRoot d2 = GetMDRoot (H_concat env)
          (MD_of (H_concat env) (map (\<lambda>c. chain_root env c (block_entries evs2 [])) ids2))
     \<and> ListMDRoot d1 = ListMDRoot d2
     \<and> mdFeed (acc s1') = mdFeed (acc s1) @ [ListMDRoot d1]
     \<and> mdFeed (acc s2') = mdFeed (acc s2) @ [ListMDRoot d2]"
proof -
  obtain d1 where d1: "flush_directoryBlock env clock1 s1 = Inr d1"
    and r1: "ListMDRoot d1 = GetMDRoot (H_concat env)
          (MD_of (H_concat env) (map (\<lambda>c. chain_root env c (block_entries evs1 [])) ids1))"
    using directory_root_block [OF assms(1,2,7,8)] by blast
  obtain d2 where d2: "flush_directoryBlock env clock2 s2 = Inr d2"
    and r2: "ListMDRoot d2 = GetMDRoot (H_concat env)
          (MD_of (H_concat env) (map (\<lambda>c. chain_root env c (block_entries evs2 [])) ids2))"
    using directory_root_block [OF assms(4,5,9,10)] by blast
  have "ListMDRoot d1 = ListMDRoot d2"
    using r1 r2 assms(11) by simp
  with d1 d2 r1 r2 flush_Inr_mdFeed [OF assms(3) d1] flush_Inr_mdFeed [OF assms(6) d2]
  show ?thesis by blast
qed

theorem directory_root_commits_to_roots_only_witness:
  "chains (acc example_start) = []
   \<and> Run_steps example_env example_clock example_start example_block_a
       = Inr (projr (Run_steps example_env example_clock example_start example_block_a))
   \<and> flush example_env example_clock
         (projr (Run_steps example_env example_clock example_start example_block_a))
       = Inr (projr (flush example_env example_clock
           (projr (Run_steps example_env example_clock example_start example_block_a))))
   \<and> Run_steps example_env example_clock example_start example_block_b
       = Inr (projr (Run_steps example_env example_clock example_start example_block_b))
   \<and> flush example_env example_clock
         (projr (Run_steps example_env example_clock example_start example_block_b))
       = Inr (projr (flush example_env example_clock
           (projr (Run_steps example_env example_clock example_start example_block_b))))
   \<and> sorted_wrt (\<lambda>a b. bytes_Compare a b < 0) [[1], [2]]
   \<and> set [[1], [2]] = entry_ChainID ` set (block_entries example_block_a [])
   \<and> sorted_wrt (\<lambda>a b. bytes_Compare a b < 0) [[3], [4]]
   \<and> set [[3], [4]] = entry_ChainID ` set (block_entries example_block_b [])
   \<and> map (\<lambda>c. chain_root example_env c (block_entries example_block_a [])) [[1], [2]]
       = [[6], [5]]
   \<and> map (\<lambda>c. chain_root example_env c (block_entries example_block_b [])) [[3], [4]]
       = [[6], [5]]
   \<and> mdFeed (acc (projr (flush example_env example_clock
         (projr (Run_steps example_env example_clock example_start example_block_a)))))
       = [[6, 5]]
   \<and> mdFeed (acc (projr (flush example_env example_clock
         (projr (Run_steps example_env example_clock example_start example_block_b)))))
       = [[6, 5]]"
proof -
  let ?sa = "projr (Run_steps example_env example_clock example_start example_block_a)"
  let ?sb = "projr (Run_steps example_env example_clock example_start example_block_b)"
  have h0: "chains (acc example_start) = []"
    by (simp add: example_simps)
  have ha: "Run_steps example_env example_clock example_start example_block_a = Inr ?sa"
    by (simp add: example_simps)
  have fa: "flush example_env example_clock ?sa = Inr (projr (flush example_env example_clock ?sa))"
    by (simp add: example_simps)
  have hb: "Run_steps example_env example_clock example_start example_block_b = Inr ?sb"
    by (simp add: example_simps)
  have fb: "flush example_env example_clock ?sb = Inr (projr (flush example_env example_clock ?sb))"
    by (simp add: example_simps)
  have sa: "sorted_wrt (\<lambda>a b. bytes_Compare a b < 0) [[1], [2]]"
    and sb: "sorted_wrt (\<lambda>a b. bytes_Compare a b < 0) [[3], [4]]"
    by simp_all
  have ia: "set [[1], [2]] = entry_ChainID ` set (block_entries example_block_a [])"
    by (auto simp add: example_simps)
  have ib: "set [[3], [4]] = entry_ChainID ` set (block_entries example_block_b [])"
    by (auto simp add: example_simps)
  have ra: "map (\<lambda>c. chain_root example_env c (block_entries example_block_a [])) [[1], [2]]
       = [[6], [5]]"
    by (simp add: example_simps)
  have rb: "map (\<lambda>c. chain_root example_env c (block_entries example_block_b [])) [[3], [4]]
       = [[6], [5]]"
    by (simp add: example_simps)
  have eq: "map (\<lambda>c. chain_root example_env c (block_entries example_block_a [])) [[1], [2]]
       = map (\<lambda>c. chain_root example_env c (block_entries example_block_b [])) [[3], [4]]"
    using ra rb by simp
  have ma: "mdFeed (acc (projr (flush example_env example_clock ?sa))) = [[6, 5]]"
    and mb: "mdFeed (acc (projr (flush example_env example_clock ?sb))) = [[6, 5]]"
    by (simp_all add: example_simps)
  show ?thesis
    using h0 ha fa hb fb sa sb ia ib ra rb ma mb
      directory_root_commits_to_roots_only [OF h0 ha fa h0 hb fb sa ia sb ib eq]
    by blast
qed

subsection \<open>Init\<close>

text \<open>
  Claim C6. When \<open>NODE_HEAD[chain_id]\<close> names a node of the store that decodes,
  \<^verbatim>\<open>Init\<close> keeps that node as \<open>previous\<close> and sets the height to its block height plus
  one (in 64-bit arithmetic). When the store has no head entry, \<^verbatim>\<open>Init\<close> assigns neither
  field: they stay what they were in the receiver, and for the zero-valued receiver
  \<open>previous\<close> is unset and the height is 0.
\<close>

theorem Init_head_and_no_head:
  "(DB_Get db types_NodeHead cid = Some headHash \<and> DB_Get db types_Node headHash = Some head
      \<and> Node_Unmarshal env head = Some headNode
     \<longrightarrow> (\<exists>a'. Init env a db cid = Inr a' \<and> previous a' = Some headNode
            \<and> height a' = BHeight headNode + 1))
   \<and> (DB_Get db types_NodeHead cid = None
     \<longrightarrow> (\<exists>a'. Init env a db cid = Inr a' \<and> previous a' = previous a \<and> height a' = height a)
       \<and> (\<exists>a'. Init env new_Accumulator db cid = Inr a' \<and> previous a' = None \<and> height a' = 0))"
  by (simp add: Init_def new_Accumulator_def)

theorem Init_head_and_no_head_witness:
  "DB_Get example_head_db types_NodeHead example_id = Some [9]
   \<and> DB_Get example_head_db types_Node [9] = Some [0]
   \<and> Node_Unmarshal example_env [0] = Some (new_Node\<lparr>IsNode := True\<rparr>)
   \<and> (\<exists>a'. Init example_env new_Accumulator example_head_db example_id = Inr a'
         \<and> previous a' = Some (new_Node\<lparr>IsNode := True\<rparr>) \<and> height a' = 1)
   \<and> DB_Get [] types_NodeHead example_id = None
   \<and> (\<exists>a'. Init example_env new_Accumulator [] example_id = Inr a'
         \<and> previous a' = None \<and> height a' = 0)"
  using Init_head_and_no_head [where db = example_head_db and cid = example_id
      and headHash = "[9]" and head = "[0]" and env = example_env
      and headNode = "new_Node\<lparr>IsNode := True\<rparr>" and a = new_Accumulator]
    Init_head_and_no_head [where db = "[]" and cid = example_id
      and headHash = "[9]" and head = "[0]" and env = example_env
      and headNode = "new_Node\<lparr>IsNode := True\<rparr>" and a = new_Accumulator]
  by (simp add: example_simps)

subsection \<open>A closed control channel\<close>

text \<open>
  Claim C9, as amended. Closing the control channel is not a shutdown signal. A receive
  on the closed channel yields \<open>false\<close>, which is ignored like any \<open>false\<close>: the pass
  changes nothing, runs no flush and writes nothing to the store, and a run with such a
  receive in its input ends in the same state as the run without it, so later entries
  are still processed. The loop has no exit: as long as no \<open>true\<close> is received, which a
  closed channel never delivers, \<^verbatim>\<open>Run\<close> is still looping after any number of passes.
\<close>

theorem closed_control_is_ignored:
  "select_case env s ClosedControl = (s, False)
   \<and> Run_pass env clock s ClosedControl = Inr s
   \<and> Run_steps env clock s (evs1 @ ClosedControl # evs2) = Run_steps env clock s (evs1 @ evs2)
   \<and> ((\<forall>j<fuel. sched (i + j) \<noteq> RecvControl True) \<longrightarrow> Run fuel env clock sched i s = None)"
  by (simp add: Run_pass_def Run_steps_append Run_None_no_end split: sum.splits)

theorem closed_control_is_ignored_witness:
  "example_closed 0 \<noteq> RecvControl True \<and> example_closed 1 \<noteq> RecvControl True
   \<and> example_closed 2 \<noteq> RecvControl True
   \<and> Run 3 example_env example_clock example_closed 0 example_start = None
   \<and> Run_pass example_env example_clock example_start ClosedControl = Inr example_start"
proof -
  have h: "\<forall>j<3. example_closed (0 + j) \<noteq> RecvControl True"
    by (simp add: example_closed_def)
  show ?thesis
    using h closed_control_is_ignored [where fuel = 3 and sched = example_closed and i = 0
        and env = example_env and clock = example_clock and s = example_start]
    by (simp add: example_closed_def)
qed

text \<open>
  The claim as stated fails on the empty store: after the control channel is closed,
  nothing has been flushed or persisted, an entry that arrives next is still put into
  its chain, and the loop is still running after a hundred passes.
\<close>

theorem closed_control_shutdown_counterexample:
  "Run_steps example_env example_clock example_start [ClosedControl] = Inr example_start
   \<and> DB (acc example_start) = [] \<and> mdFeed (acc example_start) = []
   \<and> map fst (chains (acc (projr (Run_steps example_env example_clock example_start
         [ClosedControl, RecvEntry (example_entry 1 5)])))) = [[1]]
   \<and> Run 100 example_env example_clock example_closed 0 example_start = None"
proof -
  have "Run 100 example_env example_clock example_closed 0 example_start = None"
    by (rule Run_None_no_end) (simp add: example_closed_def)
  then show ?thesis
    by (simp add: example_simps)
qed

subsection \<open>The nil previous pointer\<close>

text \<open>
  Claim C10. In a run started by an \<^verbatim>\<open>Init\<close> that found no head, \<open>previous\<close> is unset
  in every state of the run, and no end of block dereferences it: the test of line 142
  reads the \<open>SequenceNum\<close> of the node allocated at line 138, which is still zero, so
  line 143 is not reached, the directory node keeps the zero digest as its \<open>Previous\<close>,
  and neither a flush nor the run ends with a nil-pointer fault.
\<close>

theorem no_nil_dereference_without_head:
  assumes "DB_Get db types_NodeHead cid = None"
    and "Init env new_Accumulator db cid = Inr a0"
    and "Run_steps env clock (Run_start clock a0) evs = Inr s"
  shows "previous a0 = None \<and> previous (acc s) = None
     \<and> flush env clock s \<noteq> Inl NilPointerDereference
     \<and> Run_pass env clock s ev \<noteq> Inl NilPointerDereference
     \<and> Run fuel env clock sched 0 (Run_start clock a0) \<noteq> Some NilPointerDereference
     \<and> (\<exists>d. flush_directoryBlock env clock s = Inr d \<and> Previous d = zero_Hash)"
proof -
  have p0: "previous a0 = None"
    using assms(1,2) by (auto simp: Init_def new_Accumulator_def)
  have "previous (acc s) = previous (acc (Run_start clock a0))"
    using Run_steps_fields [OF assms(3)] by simp
  then have p: "previous (acc s) = None"
    using p0 by (simp add: Run_start_def)
  have "\<exists>d. flush_directoryBlock env clock s = Inr d \<and> Previous d = zero_Hash"
    by (simp add: flush_directoryBlock_total new_Node_def)
  with p0 p show ?thesis
    by (simp add: flush_not_nil Run_pass_not_nil Run_not_nil)
qed

theorem no_nil_dereference_without_head_witness:
  "DB_Get [] types_NodeHead example_id = None
   \<and> Init example_env new_Accumulator [] example_id = Inr example_fresh
   \<and> Run_steps example_env example_clock (Run_start example_clock example_fresh)
        (example_block @ [RecvControl True])
      = Inr (projr (Run_steps example_env example_clock (Run_start example_clock example_fresh)
          (example_block @ [RecvControl True])))
   \<and> previous (acc (projr (Run_steps example_env example_clock
          (Run_start example_clock example_fresh) (example_block @ [RecvControl True])))) = None
   \<and> flush example_env example_clock (projr (Run_steps example_env example_clock
          (Run_start example_clock example_fresh) (example_block @ [RecvControl True])))
      \<noteq> Inl NilPointerDereference"
proof -
  have h1: "DB_Get [] types_NodeHead example_id = None"
    by (simp add: DB_Get_def)
  have h2: "Init example_env new_Accumulator [] example_id = Inr example_fresh"
    by (simp add: example_simps)
  have h3: "Run_steps example_env example_clock (Run_start example_clock example_fresh)
        (example_block @ [RecvControl True])
      = Inr (projr (Run_steps example_env example_clock (Run_start example_clock example_fresh)
          (example_block @ [RecvControl True])))"
    by (simp add: example_simps)
  show ?thesis
    using h1 h2 h3 no_nil_dereference_without_head [OF h1 h2 h3] by blast
qed

subsection \<open>Where the code departs from the chaining of blocks\<close>

text \<open>
  Claim C1 fails on the code. On a store whose head is a directory node of block height
  0, \<^verbatim>\<open>Init\<close> keeps that node and sets the height to 1; the directory node of the first
  block then has block height 1, but its \<open>Previous\<close> is the zero digest and not the hash
  of the head. Lemma \<open>flush_directoryBlock_total\<close> shows the same for every state.
\<close>

theorem previous_not_linked_with_head:
  "\<exists>a1 d. Init example_env new_Accumulator example_head_db example_id = Inr a1
     \<and> previous a1 = Some (new_Node\<lparr>IsNode := True\<rparr>)
     \<and> height a1 = 1
     \<and> flush_directoryBlock example_env example_clock (Run_start example_clock a1) = Inr d
     \<and> BHeight d = 1
     \<and> Previous d = zero_Hash
     \<and> Node_GetHash example_env (new_Node\<lparr>IsNode := True\<rparr>) \<noteq> zero_Hash"
  by (simp add: example_simps)

text \<open>
  Claim C2 fails on the code. On the empty store, the first end of block puts the
  directory node, but the coordinator's \<open>previous\<close> is unset afterwards as before:
  \<^verbatim>\<open>Run\<close> has no assignment to \<^verbatim>\<open>a.previous\<close>. Lemma \<open>Run_steps_fields\<close> shows the
  same for every run.
\<close>

theorem previous_not_retained_after_flush:
  "\<exists>s d. Run_steps example_env example_clock example_start [RecvControl True] = Inr s
     \<and> flush_directoryBlock example_env example_clock example_start = Inr d
     \<and> ((types_Node, Node_GetHash example_env d), Node_Marshal example_env d) \<in> set (DB (acc s))
     \<and> previous (acc example_start) = None
     \<and> previous (acc s) = None"
  by (simp add: example_simps)

text \<open>
  Claim C3 fails on the code. On the empty store, two ends of block in a row give two
  directory nodes of block height 0, and the height is still 0 afterwards:
  \<^verbatim>\<open>Run\<close> has no assignment to \<^verbatim>\<open>a.height\<close>. Lemma \<open>Run_steps_fields\<close> shows the same
  for every run.
\<close>

theorem height_not_incremented_by_flush:
  "\<exists>s1 s2 d1 d2. flush_directoryBlock example_env example_clock example_start = Inr d1
     \<and> Run_steps example_env example_clock example_start [RecvControl True] = Inr s1
     \<and> flush_directoryBlock example_env example_clock s1 = Inr d2
     \<and> Run_steps example_env example_clock s1 [RecvControl True] = Inr s2
     \<and> BHeight d1 = 0 \<and> BHeight d2 = 0 \<and> height (acc s2) = 0
     \<and> length (mdFeed (acc s2)) = 2"
  by (simp add: example_simps)

end
